theory Spec2Isabelle
  imports Main
begin

section \<open>The caching service worker of the Registro Escuadrones PWA\<close>

text \<open>
  A shallow embedding of \<^verbatim>\<open>src/service-worker.js\<close>. The worker has four event
  handlers (install, activate, fetch, message). Each one is a function from the cache
  storage of the origin (and, where the handler uses the network, from the network's
  answers) to the storage it leaves behind, the value it hands to the platform and the
  list of platform operations it performed, in the order of the source.

  Promises are modelled by their outcome: a promise that rejects is a branch of the
  model, a detached promise (the write after \<^verbatim>\<open>caches.open(...).then\<close> that
  nobody awaits) contributes its effect to the storage after the handler but never to
  the value handed to \<^verbatim>\<open>respondWith\<close>.
\<close>

subsection \<open>Strings\<close>

text \<open>\<^verbatim>\<open>String.prototype.startsWith\<close> and \<^verbatim>\<open>String.prototype.includes\<close>.\<close>

definition startsWith :: "string \<Rightarrow> string \<Rightarrow> bool" where
  "startsWith s p = (take (length p) s = p)"

fun includes_str :: "string \<Rightarrow> string \<Rightarrow> bool" where
  "includes_str [] p = (p = [])"
| "includes_str (c # cs) p = (startsWith (c # cs) p \<or> includes_str cs p)"

subsection \<open>Requests, responses, the network\<close>

type_synonym url = string

record request =
  "method" :: string
  url :: url

text \<open>
  A response as far as the worker looks at it: \<^verbatim>\<open>status\<close>, \<^verbatim>\<open>type\<close>
  (\<^verbatim>\<open>'basic'\<close>, \<^verbatim>\<open>'cors'\<close>, \<^verbatim>\<open>'opaque'\<close>, \<^verbatim>\<open>'error'\<close>, ...) and the body.
\<close>

record response =
  status :: nat
  type :: string
  body :: string

text \<open>
  \<^verbatim>\<open>fetch(request)\<close> either rejects (no network) or resolves with a response. It never
  resolves with a falsy value, so the source's test \<^verbatim>\<open>!networkResponse\<close> is false
  whenever the continuation runs.
\<close>

datatype net_result = Rejected | Resolved response

type_synonym network = "url \<Rightarrow> net_result"

subsection \<open>Cache storage\<close>

text \<open>
  A cache is the list of its entries in insertion order (\<^verbatim>\<open>cache.keys()\<close> lists them
  so), keyed by request URL; the storage is the list of named caches in creation order
  (\<^verbatim>\<open>caches.keys()\<close>).
\<close>

type_synonym cache = "(url \<times> response) list"

type_synonym cache_storage = "(string \<times> cache) list"

text \<open>The operations the handlers perform, logged in program order.\<close>

record reply =
  cached :: "url list"
  count :: nat

datatype effect =
    CachesMatch url
  | CachesOpen string
  | CachesKeys
  | CachesDelete string
  | CacheKeys string
  | CachePut string url response
  | NetFetch url
  | SkipWaiting
  | ClientsClaim
  | PostMessage nat reply

definition cache_match :: "cache \<Rightarrow> url \<Rightarrow> response option" where
  "cache_match c u = map_of c u"

text \<open>\<^verbatim>\<open>caches.match\<close>: the first cache, in creation order, that holds the URL.\<close>

fun caches_match :: "cache_storage \<Rightarrow> url \<Rightarrow> response option" where
  "caches_match [] u = None"
| "caches_match ((name, c) # s) u =
     (case cache_match c u of Some r \<Rightarrow> Some r | None \<Rightarrow> caches_match s u)"

text \<open>\<^verbatim>\<open>caches.open\<close>: creates the cache when no cache has the name.\<close>

definition caches_open :: "string \<Rightarrow> cache_storage \<Rightarrow> cache_storage" where
  "caches_open name s = (if name \<in> set (map fst s) then s else s @ [(name, [])])"

text \<open>\<^verbatim>\<open>cache.put\<close>: an entry for the same URL is replaced, the new entry comes last.\<close>

definition cache_put :: "url \<Rightarrow> response \<Rightarrow> cache \<Rightarrow> cache" where
  "cache_put u r c = filter (\<lambda>e. fst e \<noteq> u) c @ [(u, r)]"

definition storage_put :: "string \<Rightarrow> url \<Rightarrow> response \<Rightarrow> cache_storage \<Rightarrow> cache_storage" where
  "storage_put name u r s = map (\<lambda>(n, c). if n = name then (n, cache_put u r c) else (n, c)) s"

definition caches_keys :: "cache_storage \<Rightarrow> string list" where
  "caches_keys s = map fst s"

definition caches_delete :: "string \<Rightarrow> cache_storage \<Rightarrow> cache_storage" where
  "caches_delete name s = filter (\<lambda>e. fst e \<noteq> name) s"

definition cache_of :: "string \<Rightarrow> cache_storage \<Rightarrow> cache" where
  "cache_of name s = (case map_of s name of None \<Rightarrow> [] | Some c \<Rightarrow> c)"

subsection \<open>The worker's constants\<close>

definition CACHE_NAME :: string where
  "CACHE_NAME = ''registro-escuadrones-v1''"

definition CACHE_OFFLINE :: string where
  "CACHE_OFFLINE = ''registro-escuadrones-offline-v1''"

text \<open>The stylesheet URL the source writes out twice (lines 16 and 38).\<close>

definition FONTS_CSS :: url where
  "FONTS_CSS = ''https://fonts.googleapis.com/css2?family=Syne:wght@400;700;800&family=DM+Mono:wght@400;500&family=Newsreader:ital,wght@0,400;0,600;1,400&display=swap''"

definition ASSETS_TO_CACHE :: "url list" where
  "ASSETS_TO_CACHE =
     [''./comensales.html'', ''./manifest.json'', ''./icon-192.png'', ''./icon-512.png'', FONTS_CSS]"

definition OFFLINE_FALLBACK :: url where
  "OFFLINE_FALLBACK = ''./comensales.html''"

text \<open>
  \<^verbatim>\<open>self.location\<close>: the worker's origin and the URL of its script. A URL written
  \<^verbatim>\<open>'./name'\<close> in the source is resolved against the directory of the script; the
  other URLs of the source are absolute.
\<close>

record location =
  origin :: string
  href :: string

definition base_dir :: "location \<Rightarrow> string" where
  "base_dir loc = rev (dropWhile (\<lambda>c. c \<noteq> CHR ''/'') (rev (href loc)))"

definition resolve :: "location \<Rightarrow> url \<Rightarrow> url" where
  "resolve loc u = (if startsWith u ''./'' then base_dir loc @ drop 2 u else u)"

subsection \<open>Install\<close>

text \<open>
  \<^verbatim>\<open>cache.addAll(urls)\<close> of the platform: every URL is fetched; when a fetch fails or
  a response is not ok (a status outside 200..299, or 206) the promise rejects and
  nothing is stored; otherwise every response is put. \<^verbatim>\<open>cache.add(u)\<close> is
  \<^verbatim>\<open>addAll([u])\<close>.
\<close>

definition ok_status :: "response \<Rightarrow> bool" where
  "ok_status r = (200 \<le> status r \<and> status r \<le> 299 \<and> status r \<noteq> 206)"

fun fetch_all :: "network \<Rightarrow> url list \<Rightarrow> (url \<times> response) list option" where
  "fetch_all net [] = Some []"
| "fetch_all net (u # us) =
     (case net u of
        Rejected \<Rightarrow> None
      | Resolved r \<Rightarrow>
          if ok_status r
          then (case fetch_all net us of None \<Rightarrow> None | Some es \<Rightarrow> Some ((u, r) # es))
          else None)"

definition put_all :: "string \<Rightarrow> (url \<times> response) list \<Rightarrow> cache_storage \<Rightarrow> cache_storage" where
  "put_all name es s = fold (\<lambda>e. storage_put name (fst e) (snd e)) es s"

definition cache_addAll ::
  "location \<Rightarrow> network \<Rightarrow> string \<Rightarrow> url list \<Rightarrow> cache_storage \<Rightarrow> bool \<times> cache_storage \<times> effect list"
where
  "cache_addAll loc net name urls s =
     (let us = map (resolve loc) urls in
      case fetch_all net us of
        None \<Rightarrow> (False, s, map NetFetch us)
      | Some es \<Rightarrow>
          (True, put_all name es s, map NetFetch us @ map (\<lambda>e. CachePut name (fst e) (snd e)) es))"

datatype install_outcome = InstallFailed | Installed

text \<open>
  The install handler (lines 25-50). The mandatory \<^verbatim>\<open>addAll\<close> gets the two URLs the
  handler writes out, not \<^verbatim>\<open>ASSETS_TO_CACHE\<close>; its rejection is the rejection of the
  promise given to \<^verbatim>\<open>waitUntil\<close>. The rejection of \<^verbatim>\<open>cache.add\<close> of the
  stylesheet is caught.
\<close>

definition install ::
  "location \<Rightarrow> network \<Rightarrow> cache_storage \<Rightarrow> install_outcome \<times> cache_storage \<times> effect list"
where
  "install loc net s =
     (let s0 = caches_open CACHE_NAME s in
      case cache_addAll loc net CACHE_NAME [''./comensales.html'', ''./manifest.json''] s0 of
        (added, s1, fx1) \<Rightarrow>
          if \<not> added then (InstallFailed, s1, CachesOpen CACHE_NAME # fx1)
          else (case cache_addAll loc net CACHE_NAME [FONTS_CSS] s1 of
                  (_, s2, fx2) \<Rightarrow>
                    (Installed, s2, CachesOpen CACHE_NAME # fx1 @ fx2 @ [SkipWaiting])))"

subsection \<open>Activate\<close>

text \<open>The activate handler (lines 55-73).\<close>

definition activate :: "cache_storage \<Rightarrow> cache_storage \<times> effect list" where
  "activate s =
     (let cacheNames = caches_keys s;
          old = filter (\<lambda>name. name \<noteq> CACHE_NAME \<and> name \<noteq> CACHE_OFFLINE) cacheNames
      in (fold caches_delete old s, CachesKeys # map CachesDelete old @ [ClientsClaim]))"

subsection \<open>Fetch\<close>

datatype fetch_outcome = PassThrough | RespondWith "response option"

text \<open>
  \<^verbatim>\<open>PassThrough\<close>: the handler returned without calling \<^verbatim>\<open>respondWith\<close>.
  \<^verbatim>\<open>RespondWith v\<close>: the promise given to \<^verbatim>\<open>respondWith\<close> resolved with \<open>v\<close>,
  where \<open>None\<close> is \<^verbatim>\<open>undefined\<close> (what \<^verbatim>\<open>caches.match\<close> resolves with when
  nothing matches), which the platform turns into a network error for the page.
\<close>

definition shouldCache :: "location \<Rightarrow> url \<Rightarrow> bool" where
  "shouldCache loc u =
     (includes_str u (origin loc) \<or>
      includes_str u ''fonts.googleapis.com'' \<or>
      includes_str u ''fonts.gstatic.com'')"

text \<open>
  The background refresh of the hit branch (lines 95-105); nobody awaits it. The
  conjunct \<^verbatim>\<open>networkResponse\<close> of line 97 is true of every value \<^verbatim>\<open>fetch\<close>
  resolves with; what is left is the test of the status.
\<close>

definition refresh :: "network \<Rightarrow> request \<Rightarrow> cache_storage \<Rightarrow> cache_storage \<times> effect list" where
  "refresh net req s =
     (case net (url req) of
        Rejected \<Rightarrow> (s, [NetFetch (url req)])
      | Resolved networkResponse \<Rightarrow>
          if status networkResponse = 200
          then (storage_put CACHE_NAME (url req) networkResponse (caches_open CACHE_NAME s),
                [NetFetch (url req), CachesOpen CACHE_NAME,
                 CachePut CACHE_NAME (url req) networkResponse])
          else (s, [NetFetch (url req)]))"

text \<open>
  The fetch handler (lines 81-141). Of the test of line 114 the disjunct
  \<^verbatim>\<open>!networkResponse\<close> is false of every value \<^verbatim>\<open>fetch\<close> resolves with; the
  other two are kept. The \<^verbatim>\<open>catch\<close> of line 134 runs when \<^verbatim>\<open>fetch\<close> rejects.
\<close>

definition fetch_handler ::
  "location \<Rightarrow> network \<Rightarrow> cache_storage \<Rightarrow> request \<Rightarrow> fetch_outcome \<times> cache_storage \<times> effect list"
where
  "fetch_handler loc net s req =
     (if method req \<noteq> ''GET'' then (PassThrough, s, [])
      else if \<not> startsWith (url req) ''http'' then (PassThrough, s, [])
      else
        case caches_match s (url req) of
          Some cachedResponse \<Rightarrow>
            (case refresh net req s of
               (s', fx) \<Rightarrow> (RespondWith (Some cachedResponse), s', CachesMatch (url req) # fx))
        | None \<Rightarrow>
            (case net (url req) of
               Resolved networkResponse \<Rightarrow>
                 if status networkResponse \<noteq> 200 \<or> type networkResponse = ''error''
                 then (RespondWith (Some networkResponse), s,
                       [CachesMatch (url req), NetFetch (url req)])
                 else if shouldCache loc (url req)
                 then (RespondWith (Some networkResponse),
                       storage_put CACHE_NAME (url req) networkResponse (caches_open CACHE_NAME s),
                       [CachesMatch (url req), NetFetch (url req), CachesOpen CACHE_NAME,
                        CachePut CACHE_NAME (url req) networkResponse])
                 else (RespondWith (Some networkResponse), s,
                       [CachesMatch (url req), NetFetch (url req)])
             | Rejected \<Rightarrow>
                 (RespondWith (caches_match s (resolve loc OFFLINE_FALLBACK)), s,
                  [CachesMatch (url req), NetFetch (url req),
                   CachesMatch (resolve loc OFFLINE_FALLBACK)])))"

subsection \<open>Message\<close>

text \<open>
  A message event: \<open>data\<close> is the \<^verbatim>\<open>type\<close> property of \<^verbatim>\<open>event.data\<close>
  (\<open>None\<close> when the data is falsy or has no such property), \<open>ports\<close> the
  transferred ports, named by numbers.
\<close>

record message_event =
  data :: "string option"
  ports :: "nat list"

datatype message_outcome = NoReply | Replied nat reply | TypeError

definition cache_keys :: "cache \<Rightarrow> request list" where
  "cache_keys c = map (\<lambda>e. \<lparr>method = ''GET'', url = fst e\<rparr>) c"

text \<open>
  The message handler (lines 146-164). \<^verbatim>\<open>event.ports[0]\<close> of an empty port list is
  \<^verbatim>\<open>undefined\<close>, and calling \<^verbatim>\<open>postMessage\<close> on it throws a TypeError inside
  the continuation of \<^verbatim>\<open>cache.keys()\<close>.
\<close>

definition message_handler ::
  "cache_storage \<Rightarrow> message_event \<Rightarrow> message_outcome \<times> cache_storage \<times> effect list"
where
  "message_handler s event =
     (let fx0 = (if data event = Some ''SKIP_WAITING'' then [SkipWaiting] else []) in
      if data event = Some ''GET_CACHE_STATUS''
      then (let s1 = caches_open CACHE_NAME s;
                keys = cache_keys (cache_of CACHE_NAME s1);
                fx1 = fx0 @ [CachesOpen CACHE_NAME, CacheKeys CACHE_NAME]
            in case ports event of
                 [] \<Rightarrow> (TypeError, s1, fx1)
               | port # _ \<Rightarrow>
                   (let msg = \<lparr>cached = map url keys, count = length keys\<rparr>
                    in (Replied port msg, s1, fx1 @ [PostMessage port msg])))
      else (NoReply, s, fx0))"

subsection \<open>Runs of the worker\<close>

text \<open>
  The events the platform delivers, each with the network it meets, and the storage and
  the log of a sequence of them.
\<close>

datatype event =
    InstallEvent network
  | ActivateEvent
  | FetchEvent network request
  | MessageEvent message_event

fun step :: "location \<Rightarrow> cache_storage \<Rightarrow> event \<Rightarrow> cache_storage \<times> effect list" where
  "step loc s (InstallEvent net) = snd (install loc net s)"
| "step loc s ActivateEvent = activate s"
| "step loc s (FetchEvent net req) = snd (fetch_handler loc net s req)"
| "step loc s (MessageEvent m) = snd (message_handler s m)"

fun run ::
  "location \<Rightarrow> cache_storage \<Rightarrow> event list \<Rightarrow> cache_storage \<times> (event \<times> effect list) list"
where
  "run loc s [] = (s, [])"
| "run loc s (e # es) =
     (case step loc s e of
        (s', fx) \<Rightarrow> (case run loc s' es of (s'', tr) \<Rightarrow> (s'', (e, fx) # tr)))"

subsection \<open>Observations on storages and logs\<close>

text \<open>The URLs a named cache holds, and the URLs a log puts into a named cache.\<close>

definition cached_urls :: "string \<Rightarrow> cache_storage \<Rightarrow> url set" where
  "cached_urls name s = fst ` set (cache_of name s)"

definition written :: "string \<Rightarrow> effect list \<Rightarrow> url list" where
  "written name fx =
     concat (map (\<lambda>e. case e of CachePut n u r \<Rightarrow> if n = name then [u] else [] | _ \<Rightarrow> []) fx)"

text \<open>The events whose handlers write into a cache: install and fetch.\<close>

fun writer :: "event \<Rightarrow> bool" where
  "writer (InstallEvent net) = True"
| "writer (FetchEvent net req) = True"
| "writer e = False"

subsection \<open>The specification's notions, for comparison with the code's tests\<close>

text \<open>
  The specification speaks of a URL's scheme, of the origin a URL belongs to and of its
  host, where the code tests prefixes and substrings. These definitions follow the
  specification's words: the scheme is what precedes the first colon, the authority
  what follows \<^verbatim>\<open>://\<close> up to the next \<^verbatim>\<open>/\<close>, \<^verbatim>\<open>?\<close> or \<^verbatim>\<open>#\<close>, the host
  the authority without its port, the origin scheme and authority together.
\<close>

definition url_scheme :: "url \<Rightarrow> string" where
  "url_scheme u = takeWhile (\<lambda>c. c \<noteq> CHR '':'') u"

definition spec_http_scheme :: "url \<Rightarrow> bool" where
  "spec_http_scheme u = (url_scheme u = ''http'' \<or> url_scheme u = ''https'')"

definition url_authority :: "url \<Rightarrow> string" where
  "url_authority u =
     takeWhile (\<lambda>c. c \<noteq> CHR ''/'' \<and> c \<noteq> CHR ''?'' \<and> c \<noteq> CHR ''#'')
       (drop (length (url_scheme u) + 3) u)"

definition url_origin :: "url \<Rightarrow> string" where
  "url_origin u = url_scheme u @ ''://'' @ url_authority u"

definition url_host :: "url \<Rightarrow> string" where
  "url_host u = takeWhile (\<lambda>c. c \<noteq> CHR '':'') (url_authority u)"

definition spec_cacheable :: "location \<Rightarrow> url \<Rightarrow> bool" where
  "spec_cacheable loc u =
     (url_origin u = origin loc \<or>
      url_host u = ''fonts.googleapis.com'' \<or>
      url_host u = ''fonts.gstatic.com'')"

text \<open>
  The URLs of the requests the platform hands to a fetch handler: their scheme is http
  or https or, for requests of browser extensions, a scheme such as
  \<^verbatim>\<open>chrome-extension\<close> or \<^verbatim>\<open>moz-extension\<close>, which does not begin with
  \<^verbatim>\<open>http\<close>.
\<close>

definition event_scheme :: "url \<Rightarrow> bool" where
  "event_scheme u =
     (url_scheme u = ''http'' \<or> url_scheme u = ''https'' \<or> \<not> startsWith (url_scheme u) ''http'')"

text \<open>The local entries of the asset list: the ones written relative to the worker.\<close>

definition spec_local_assets :: "url list" where
  "spec_local_assets = filter (\<lambda>u. startsWith u ''./'') ASSETS_TO_CACHE"

subsection \<open>Concrete inputs\<close>

definition app_location :: location where
  "app_location =
     \<lparr>origin = ''https://app.example'', href = ''https://app.example/pwa/service-worker.js''\<rparr>"

definition ok200 :: response where
  "ok200 = \<lparr>status = 200, type = ''basic'', body = ''ok''\<rparr>"

definition cors200 :: response where
  "cors200 = \<lparr>status = 200, type = ''cors'', body = ''font''\<rparr>"

definition missing404 :: response where
  "missing404 = \<lparr>status = 404, type = ''basic'', body = ''not found''\<rparr>"

definition online :: network where
  "online u = Resolved ok200"

definition online_cors :: network where
  "online_cors u = Resolved cors200"

definition online_404 :: network where
  "online_404 u = Resolved missing404"

definition offline :: network where
  "offline u = Rejected"

definition get_request :: "url \<Rightarrow> request" where
  "get_request u = \<lparr>method = ''GET'', url = u\<rparr>"

definition example_events :: "event list" where
  "example_events =
     [ActivateEvent, FetchEvent online (get_request ''https://app.example/pwa/style.css'')]"

definition status_request :: message_event where
  "status_request = \<lparr>data = Some ''GET_CACHE_STATUS'', ports = [7]\<rparr>"

definition cdn_font :: url where
  "cdn_font = ''https://cdn.example/fonts.gstatic.com/a.woff2''"

section \<open>Properties of the storage operations and of the handlers\<close>

lemma fold_caches_delete: "fold caches_delete ns s = filter (\<lambda>e. fst e \<notin> set ns) s"
  by (induction ns arbitrary: s) (auto simp: caches_delete_def intro: filter_cong)

lemma activate_filter:
  "fst (activate s) = filter (\<lambda>e. fst e = CACHE_NAME \<or> fst e = CACHE_OFFLINE) s"
  by (auto simp: activate_def caches_keys_def fold_caches_delete Let_def intro: filter_cong)

lemma map_of_cache_put: "map_of (cache_put u r c) u' = (if u' = u then Some r else map_of c u')"
  by (induction c) (auto simp: cache_put_def)

lemma keys_cache_put: "fst ` set (cache_put u r c) = insert u (fst ` set c)"
  by (auto simp: cache_put_def image_iff)

lemma map_of_storage_put:
  "map_of (storage_put name u r s) n =
     (if n = name then map_option (cache_put u r) (map_of s n) else map_of s n)"
  by (induction s) (auto simp: storage_put_def)

lemma map_of_caches_open:
  "map_of (caches_open name s) n =
     (if n = name \<and> map_of s n = None then Some [] else map_of s n)"
proof (cases "name \<in> fst ` set s")
  case True
  then have "map_of s name \<noteq> None" by (simp add: map_of_eq_None_iff)
  with True show ?thesis by (auto simp: caches_open_def)
next
  case False
  then have "map_of s name = None" by (simp add: map_of_eq_None_iff)
  with False show ?thesis by (auto simp: caches_open_def map_add_def split: option.splits)
qed

lemma map_of_caches_open_same: "map_of (caches_open name s) name \<noteq> None"
  by (simp add: map_of_caches_open)

lemma cache_of_caches_open: "cache_of n (caches_open name s) = cache_of n s"
  by (auto simp: cache_of_def map_of_caches_open)

lemma cached_urls_open: "cached_urls n (caches_open name s) = cached_urls n s"
  by (simp add: cached_urls_def cache_of_caches_open)

lemma cached_urls_put:
  "cached_urls n (storage_put name u r s) =
     (if n = name \<and> map_of s n \<noteq> None then insert u (cached_urls n s) else cached_urls n s)"
  by (cases "map_of s name")
     (simp_all add: cached_urls_def cache_of_def map_of_storage_put keys_cache_put)

lemma cached_urls_open_put:
  "cached_urls n (storage_put name u r (caches_open name s)) =
     (if n = name then insert u (cached_urls n s) else cached_urls n s)"
  by (auto simp: cached_urls_put map_of_caches_open cached_urls_open)

lemma map_of_filter_fst: "map_of (filter (\<lambda>e. P (fst e)) s) n = (if P n then map_of s n else None)"
  by (induction s) auto

lemma cached_urls_activate: "cached_urls CACHE_NAME (fst (activate s)) = cached_urls CACHE_NAME s"
proof -
  have "map_of (filter (\<lambda>e. fst e = CACHE_NAME \<or> fst e = CACHE_OFFLINE) s) CACHE_NAME =
        map_of s CACHE_NAME"
    using map_of_filter_fst [of "\<lambda>n. n = CACHE_NAME \<or> n = CACHE_OFFLINE" s CACHE_NAME] by simp
  then show ?thesis by (simp add: activate_filter cached_urls_def cache_of_def)
qed

lemma caches_match_stored:
  "map_of s name = Some c \<Longrightarrow> map_of c u = Some r \<Longrightarrow> caches_match s u \<noteq> None"
  by (induction s) (auto simp: cache_match_def split: option.splits if_splits)

lemma cached_urls_match: "u \<in> cached_urls name s \<Longrightarrow> \<exists>r. caches_match s u = Some r"
proof -
  assume "u \<in> cached_urls name s"
  then obtain c where c: "map_of s name = Some c" "u \<in> fst ` set c"
    by (cases "map_of s name") (simp_all add: cached_urls_def cache_of_def)
  then obtain r where "map_of c u = Some r"
    by (metis map_of_eq_None_iff not_None_eq)
  with c show ?thesis using caches_match_stored by blast
qed


lemma written_append: "written n (a @ b) = written n a @ written n b"
  by (simp add: written_def)

lemma written_Cons:
  "written n (e # fx) =
     (case e of CachePut n' u r \<Rightarrow> if n' = n then [u] else [] | _ \<Rightarrow> []) @ written n fx"
  by (simp add: written_def)

lemma written_Nil: "written n [] = []"
  by (simp add: written_def)

lemma written_NetFetch: "written n (map NetFetch us) = []"
  by (induction us) (simp_all add: written_def)

lemma written_NetFetch_comp: "written n (map (NetFetch \<circ> f) us) = []"
  using written_NetFetch [of n "map f us"] by simp

lemma written_CachePut: "written n (map (\<lambda>e. CachePut n (fst e) (snd e)) es) = map fst es"
  by (induction es) (simp_all add: written_def)

lemma fetch_all_urls: "fetch_all net us = Some es \<Longrightarrow> map fst es = us"
  by (induction us arbitrary: es) (auto split: net_result.splits if_splits option.splits)

lemma fetch_all_ok: "fetch_all net us = Some es \<Longrightarrow> (u, r) \<in> set es \<Longrightarrow> net u = Resolved r \<and> ok_status r"
  by (induction us arbitrary: es) (auto split: net_result.splits if_splits option.splits)

lemma put_all_present: "map_of s name \<noteq> None \<Longrightarrow> map_of (put_all name es s) name \<noteq> None"
  by (induction es arbitrary: s) (auto simp: put_all_def map_of_storage_put)

lemma cached_urls_put_all:
  "map_of s name \<noteq> None \<Longrightarrow>
   cached_urls n (put_all name es s) =
     (if n = name then cached_urls n s \<union> fst ` set es else cached_urls n s)"
proof (induction es arbitrary: s)
  case Nil
  then show ?case by (simp add: put_all_def)
next
  case (Cons e es)
  have present: "map_of (storage_put name (fst e) (snd e) s) name \<noteq> None"
    using Cons.prems by (auto simp: map_of_storage_put)
  have "put_all name (e # es) s = put_all name es (storage_put name (fst e) (snd e) s)"
    by (simp add: put_all_def)
  then show ?case
    using Cons.IH [OF present] Cons.prems by (auto simp: cached_urls_put)
qed

lemma cache_addAll_cached:
  assumes "map_of s name \<noteq> None"
    and "cache_addAll loc net name urls s = (added, s', fx)"
  shows "cached_urls name s' = cached_urls name s \<union> set (written name fx)"
    and "map_of s' name \<noteq> None"
    and "added \<Longrightarrow> set (map (resolve loc) urls) \<subseteq> cached_urls name s'"
proof -
  show "cached_urls name s' = cached_urls name s \<union> set (written name fx)"
  proof (cases "fetch_all net (map (resolve loc) urls)")
    case None
    with assms(2) show ?thesis
      by (auto simp: cache_addAll_def written_NetFetch_comp)
  next
    case (Some es)
    with assms show ?thesis
      by (auto simp: cache_addAll_def written_append written_NetFetch_comp written_CachePut
          cached_urls_put_all)
  qed
  show "map_of s' name \<noteq> None"
  proof (cases "fetch_all net (map (resolve loc) urls)")
    case None
    with assms show ?thesis by (simp add: cache_addAll_def)
  next
    case (Some es)
    with assms(2) have "s' = put_all name es s" by (simp add: cache_addAll_def)
    with assms(1) show ?thesis by (simp add: put_all_present)
  qed
  show "set (map (resolve loc) urls) \<subseteq> cached_urls name s'" if added
  proof (cases "fetch_all net (map (resolve loc) urls)")
    case None
    with assms(2) that show ?thesis by (simp add: cache_addAll_def)
  next
    case (Some es)
    from fetch_all_urls [OF Some] have "fst ` set es = set (map (resolve loc) urls)"
      by (metis set_map)
    with Some assms show ?thesis
      by (auto simp: cache_addAll_def cached_urls_put_all)
  qed
qed


lemma install_cached:
  assumes "install loc net s = (out, s', fx)"
  shows "cached_urls CACHE_NAME s' = cached_urls CACHE_NAME s \<union> set (written CACHE_NAME fx)"
    and "out = Installed \<Longrightarrow>
         resolve loc ''./comensales.html'' \<in> cached_urls CACHE_NAME s' \<and>
         resolve loc ''./manifest.json'' \<in> cached_urls CACHE_NAME s'"
proof -
  let ?s0 = "caches_open CACHE_NAME s"
  obtain added s1 fx1 where a1:
    "cache_addAll loc net CACHE_NAME [''./comensales.html'', ''./manifest.json''] ?s0 = (added, s1, fx1)"
    by (metis prod_cases3)
  obtain added2 s2 fx2 where a2:
    "cache_addAll loc net CACHE_NAME [FONTS_CSS] s1 = (added2, s2, fx2)"
    by (metis prod_cases3)
  have p0: "map_of ?s0 CACHE_NAME \<noteq> None" by (rule map_of_caches_open_same)
  note c1 = cache_addAll_cached [OF p0 a1]
  note c2 = cache_addAll_cached [OF c1(2) a2]
  have w: "written CACHE_NAME (CachesOpen CACHE_NAME # fx1) = written CACHE_NAME fx1"
    "written CACHE_NAME (CachesOpen CACHE_NAME # fx1 @ fx2 @ [SkipWaiting]) =
       written CACHE_NAME fx1 @ written CACHE_NAME fx2"
    by (simp_all add: written_Cons written_append written_Nil)
  show "cached_urls CACHE_NAME s' = cached_urls CACHE_NAME s \<union> set (written CACHE_NAME fx)"
  proof (cases added)
    case False
    with assms a1 have "s' = s1" "fx = CachesOpen CACHE_NAME # fx1"
      by (simp_all add: install_def Let_def)
    with c1(1) w(1) show ?thesis by (simp add: cached_urls_open)
  next
    case True
    with assms a1 a2 have "s' = s2" "fx = CachesOpen CACHE_NAME # fx1 @ fx2 @ [SkipWaiting]"
      by (simp_all add: install_def Let_def)
    with c1(1) c2(1) w(2) show ?thesis by (auto simp: cached_urls_open)
  qed
  show "resolve loc ''./comensales.html'' \<in> cached_urls CACHE_NAME s' \<and>
        resolve loc ''./manifest.json'' \<in> cached_urls CACHE_NAME s'" if "out = Installed"
  proof -
    from that assms a1 have added: added
      by (cases added) (simp_all add: install_def Let_def)
    with assms a1 a2 have s': "s' = s2" by (simp add: install_def Let_def)
    from c1(3) [OF added] have "resolve loc ''./comensales.html'' \<in> cached_urls CACHE_NAME s1"
      "resolve loc ''./manifest.json'' \<in> cached_urls CACHE_NAME s1" by simp_all
    with c2(1) s' show ?thesis by simp
  qed
qed

lemma refresh_cached:
  "refresh net req s = (s', fx) \<Longrightarrow>
   cached_urls CACHE_NAME s' = cached_urls CACHE_NAME s \<union> set (written CACHE_NAME fx)"
  by (auto simp: refresh_def written_Cons written_Nil cached_urls_open_put
      split: net_result.splits if_splits)

lemma fetch_handler_skip:
  "method req \<noteq> ''GET'' \<or> \<not> startsWith (url req) ''http'' \<Longrightarrow>
   fetch_handler loc net s req = (PassThrough, s, [])"
  by (auto simp: fetch_handler_def)

lemma fetch_handler_hit:
  "method req = ''GET'' \<Longrightarrow> startsWith (url req) ''http'' \<Longrightarrow>
   caches_match s (url req) = Some cachedResponse \<Longrightarrow>
   fetch_handler loc net s req =
     (RespondWith (Some cachedResponse), fst (refresh net req s),
      CachesMatch (url req) # snd (refresh net req s))"
  by (simp add: fetch_handler_def split: prod.splits)

lemma fetch_handler_miss:
  "method req = ''GET'' \<Longrightarrow> startsWith (url req) ''http'' \<Longrightarrow>
   caches_match s (url req) = None \<Longrightarrow>
   fetch_handler loc net s req =
     (case net (url req) of
        Resolved networkResponse \<Rightarrow>
          if status networkResponse \<noteq> 200 \<or> type networkResponse = ''error''
          then (RespondWith (Some networkResponse), s,
                [CachesMatch (url req), NetFetch (url req)])
          else if shouldCache loc (url req)
          then (RespondWith (Some networkResponse),
                storage_put CACHE_NAME (url req) networkResponse (caches_open CACHE_NAME s),
                [CachesMatch (url req), NetFetch (url req), CachesOpen CACHE_NAME,
                 CachePut CACHE_NAME (url req) networkResponse])
          else (RespondWith (Some networkResponse), s,
                [CachesMatch (url req), NetFetch (url req)])
      | Rejected \<Rightarrow>
          (RespondWith (caches_match s (resolve loc OFFLINE_FALLBACK)), s,
           [CachesMatch (url req), NetFetch (url req),
            CachesMatch (resolve loc OFFLINE_FALLBACK)]))"
  by (simp add: fetch_handler_def)

lemma fetch_handler_cached:
  assumes "fetch_handler loc net s req = (out, s', fx)"
  shows "cached_urls CACHE_NAME s' = cached_urls CACHE_NAME s \<union> set (written CACHE_NAME fx)"
proof (cases "method req = ''GET'' \<and> startsWith (url req) ''http''")
  case False
  then have "fetch_handler loc net s req = (PassThrough, s, [])"
    by (intro fetch_handler_skip) blast
  with assms show ?thesis by (simp add: written_Nil)
next
  case guard: True
  show ?thesis
  proof (cases "caches_match s (url req)")
    case (Some cachedResponse)
    from guard Some assms have "s' = fst (refresh net req s)"
      "fx = CachesMatch (url req) # snd (refresh net req s)"
      by (simp_all add: fetch_handler_hit)
    with refresh_cached [of net req s "fst (refresh net req s)" "snd (refresh net req s)"]
    show ?thesis by (simp add: written_Cons)
  next
    case None
    from guard None assms show ?thesis
      by (auto simp: fetch_handler_miss written_Cons written_Nil cached_urls_open_put
          split: net_result.splits if_splits)
  qed
qed

lemma message_handler_cached:
  "message_handler s m = (out, s', fx) \<Longrightarrow>
   cached_urls CACHE_NAME s' = cached_urls CACHE_NAME s \<and> written CACHE_NAME fx = []"
  by (auto simp: message_handler_def Let_def written_Cons written_Nil written_append
      cached_urls_open split: if_splits list.splits)

lemma activate_written: "written CACHE_NAME (snd (activate s)) = []"
proof -
  have "written n (map CachesDelete ns) = []" for n ns
    by (induction ns) (simp_all add: written_Cons written_Nil)
  then show ?thesis
    by (simp add: activate_def Let_def written_Cons written_append written_Nil)
qed

lemma triple_snd: "snd x = (b, c) \<Longrightarrow> x = (fst x, b, c)"
  by (cases x) simp

lemma step_cached:
  assumes "step loc s e = (s', fx)"
  shows "cached_urls CACHE_NAME s' = cached_urls CACHE_NAME s \<union> set (written CACHE_NAME fx)"
    and "\<not> writer e \<Longrightarrow> written CACHE_NAME fx = []"
proof -
  show "cached_urls CACHE_NAME s' = cached_urls CACHE_NAME s \<union> set (written CACHE_NAME fx)"
  proof (cases e)
    case (InstallEvent net)
    with assms show ?thesis
      using install_cached(1) [of loc net s "fst (install loc net s)" s' fx]
      by (simp add: triple_snd)
  next
    case ActivateEvent
    with assms show ?thesis
      using cached_urls_activate [of s] activate_written [of s] by simp
  next
    case (FetchEvent net req)
    with assms show ?thesis
      using fetch_handler_cached [of loc net s req "fst (fetch_handler loc net s req)" s' fx]
      by (simp add: triple_snd)
  next
    case (MessageEvent m)
    with assms show ?thesis
      using message_handler_cached [of s m "fst (message_handler s m)" s' fx]
      by (simp add: triple_snd)
  qed
  show "written CACHE_NAME fx = []" if "\<not> writer e"
  proof (cases e)
    case ActivateEvent
    with assms show ?thesis using activate_written [of s] by simp
  next
    case (MessageEvent m)
    with assms show ?thesis
      using message_handler_cached [of s m "fst (message_handler s m)" s' fx]
      by (simp add: triple_snd)
  qed (use that in simp_all)
qed

lemma run_cached:
  "run loc s evs = (s', tr) \<Longrightarrow>
   cached_urls CACHE_NAME s' =
     cached_urls CACHE_NAME s \<union>
     {u. \<exists>e fx. (e, fx) \<in> set tr \<and> writer e \<and> u \<in> set (written CACHE_NAME fx)}"
proof (induction evs arbitrary: s s' tr)
  case Nil
  then show ?case by simp
next
  case (Cons e evs)
  obtain s1 fx where st: "step loc s e = (s1, fx)" by (metis prod.exhaust)
  obtain s2 tr2 where rn: "run loc s1 evs = (s2, tr2)" by (metis prod.exhaust)
  from Cons.prems st rn have eq: "s' = s2" "tr = (e, fx) # tr2" by simp_all
  note ih = Cons.IH [OF rn]
  note sc = step_cached [OF st]
  show ?case
  proof (cases "writer e")
    case True
    with ih sc(1) eq show ?thesis by auto
  next
    case False
    with ih sc eq show ?thesis by auto
  qed
qed

lemma startsWith_append: "startsWith (p @ rest) p"
  by (simp add: startsWith_def)

lemma spec_http_scheme_startsWith: "spec_http_scheme u \<Longrightarrow> startsWith u ''http''"
proof -
  assume a: "spec_http_scheme u"
  have u: "u = url_scheme u @ dropWhile (\<lambda>c. c \<noteq> CHR '':'') u"
    by (simp add: url_scheme_def)
  from a consider "url_scheme u = ''http''" | "url_scheme u = ''https''"
    by (auto simp: spec_http_scheme_def)
  then show ?thesis
  proof cases
    case 1
    with u have "u = ''http'' @ dropWhile (\<lambda>c. c \<noteq> CHR '':'') u" by simp
    then show ?thesis by (metis startsWith_append)
  next
    case 2
    with u have "u = ''http'' @ (''s'' @ dropWhile (\<lambda>c. c \<noteq> CHR '':'') u)" by simp
    then show ?thesis by (metis startsWith_append)
  qed
qed

lemma scheme_keeps_http_prefix:
  assumes "startsWith u ''http''"
  shows "startsWith (url_scheme u) ''http''"
proof -
  define d where "d = drop (length ''http'') u"
  from assms have "take (length ''http'') u = ''http''" by (simp only: startsWith_def)
  then have u: "u = ''http'' @ d"
    using append_take_drop_id [of "length ''http''" u] by (simp only: d_def)
  have "startsWith (url_scheme (''http'' @ d)) ''http''"
    by (simp add: url_scheme_def startsWith_def)
  then show ?thesis by (subst u)
qed

lemma guard_is_scheme_test:
  assumes "event_scheme u"
  shows "startsWith u ''http'' \<longleftrightarrow> spec_http_scheme u"
proof
  assume "startsWith u ''http''"
  then have "startsWith (url_scheme u) ''http''" by (rule scheme_keeps_http_prefix)
  with assms show "spec_http_scheme u" by (auto simp: event_scheme_def spec_http_scheme_def)
next
  assume "spec_http_scheme u"
  then show "startsWith u ''http''" by (rule spec_http_scheme_startsWith)
qed

lemma run_grows:
  "cached_urls CACHE_NAME s \<subseteq> cached_urls CACHE_NAME (fst (run loc s evs))"
  using run_cached [of loc s evs "fst (run loc s evs)" "snd (run loc s evs)"] by auto

lemma fallback_stays_cached:
  assumes "fst (install loc net0 s0) = Installed"
  shows "resolve loc OFFLINE_FALLBACK \<in>
           cached_urls CACHE_NAME (fst (run loc (fst (snd (install loc net0 s0))) evs))"
proof -
  obtain s1 fx where i: "install loc net0 s0 = (Installed, s1, fx)"
    using assms by (metis prod.collapse)
  from install_cached(2) [OF i] have "resolve loc OFFLINE_FALLBACK \<in> cached_urls CACHE_NAME s1"
    by (simp add: OFFLINE_FALLBACK_def)
  with run_grows [of s1 loc evs] i show ?thesis by auto
qed

lemma status_reply:
  assumes "data event = Some ''GET_CACHE_STATUS''" and "ports event = port # rest"
  shows "message_handler s event =
           (Replied port \<lparr>cached = map fst (cache_of CACHE_NAME s),
                          count = length (cache_of CACHE_NAME s)\<rparr>,
            caches_open CACHE_NAME s,
            [CachesOpen CACHE_NAME, CacheKeys CACHE_NAME,
             PostMessage port \<lparr>cached = map fst (cache_of CACHE_NAME s),
                               count = length (cache_of CACHE_NAME s)\<rparr>])"
  using assms
  by (simp add: message_handler_def Let_def cache_keys_def cache_of_caches_open comp_def)

lemma install_failed_iff:
  "fst (install loc net s) = InstallFailed \<longleftrightarrow>
   fetch_all net [resolve loc ''./comensales.html'', resolve loc ''./manifest.json''] = None"
  by (simp add: install_def cache_addAll_def Let_def split: option.splits prod.splits)

lemma install_mandatory:
  assumes "fst (install loc net s) = Installed"
  shows "resolve loc ''./comensales.html'' \<in> cached_urls CACHE_NAME (fst (snd (install loc net s)))"
    and "resolve loc ''./manifest.json'' \<in> cached_urls CACHE_NAME (fst (snd (install loc net s)))"
proof -
  obtain s1 fx where i: "install loc net s = (Installed, s1, fx)"
    using assms by (metis prod.collapse)
  from install_cached(2) [OF i] i
  show "resolve loc ''./comensales.html'' \<in> cached_urls CACHE_NAME (fst (snd (install loc net s)))"
    and "resolve loc ''./manifest.json'' \<in> cached_urls CACHE_NAME (fst (snd (install loc net s)))"
    by simp_all
qed

lemma startsWith_includes: "startsWith u p \<Longrightarrow> includes_str u p"
  by (cases u) (simp_all add: startsWith_def)

lemma includes_append: "includes_str (a @ p @ b) p"
proof (induction a)
  case Nil
  show ?case using startsWith_includes [OF startsWith_append [of p b]] by simp
next
  case (Cons c a)
  then show ?case by simp
qed

lemma host_included: "includes_str u (url_host u)"
proof -
  define n where "n = length (url_scheme u) + 3"
  define pre where "pre = take n u"
  define h where "h = url_host u"
  define port where "port = dropWhile (\<lambda>c. c \<noteq> CHR '':'') (url_authority u)"
  define path where
    "path = dropWhile (\<lambda>c. c \<noteq> CHR ''/'' \<and> c \<noteq> CHR ''?'' \<and> c \<noteq> CHR ''#'') (drop n u)"
  have whole: "pre @ drop n u = u" by (simp add: pre_def)
  have auth: "drop n u = url_authority u @ path"
    by (simp add: url_authority_def path_def n_def)
  have host: "url_authority u = h @ port"
    by (simp add: url_host_def h_def port_def)
  have "includes_str (pre @ h @ (port @ path)) h" by (rule includes_append)
  also have "pre @ h @ (port @ path) = pre @ drop n u" by (simp only: auth host append_assoc)
  also note whole
  finally show ?thesis by (simp only: h_def)
qed

lemma origin_included:
  assumes "startsWith u (url_scheme u @ ''://'')"
  shows "includes_str u (url_origin u)"
proof -
  define p where "p = url_scheme u @ ''://''"
  define path where
    "path = dropWhile (\<lambda>c. c \<noteq> CHR ''/'' \<and> c \<noteq> CHR ''?'' \<and> c \<noteq> CHR ''#'') (drop (length p) u)"
  have n: "length (url_scheme u) + 3 = length p" by (simp add: p_def)
  from assms have "take (length p) u = p" by (simp only: startsWith_def p_def)
  then have whole: "p @ drop (length p) u = u"
    using append_take_drop_id [of "length p" u] by simp
  have auth: "drop (length p) u = url_authority u @ path"
    by (simp add: url_authority_def path_def n)
  have "startsWith (url_origin u @ path) (url_origin u)" by (rule startsWith_append)
  also have "url_origin u @ path = p @ drop (length p) u"
    using auth by (simp add: url_origin_def p_def)
  also note whole
  finally show ?thesis by (rule startsWith_includes)
qed

lemma spec_cacheable_shouldCache:
  "spec_cacheable loc u \<Longrightarrow> startsWith u (url_scheme u @ ''://'') \<Longrightarrow> shouldCache loc u"
  using host_included [of u] origin_included [of u]
  by (auto simp: spec_cacheable_def shouldCache_def)

lemma miss_ok_cached_iff:
  assumes "method req = ''GET''" and "startsWith (url req) ''http''"
    and "caches_match s (url req) = None"
    and "net (url req) = Resolved networkResponse"
    and "status networkResponse = 200" and "type networkResponse \<noteq> ''error''"
  shows "fst (fetch_handler loc net s req) = RespondWith (Some networkResponse)"
    and "CachePut CACHE_NAME (url req) networkResponse \<in> set (snd (snd (fetch_handler loc net s req)))
           \<longleftrightarrow> shouldCache loc (url req)"
    and "url req \<in> cached_urls CACHE_NAME (fst (snd (fetch_handler loc net s req)))
           \<longleftrightarrow> shouldCache loc (url req) \<or> url req \<in> cached_urls CACHE_NAME s"
  using assms by (simp_all add: fetch_handler_miss cached_urls_open_put)

lemma fetch_handler_puts:
  assumes "CachePut n u r \<in> set (snd (snd (fetch_handler loc net s req)))"
  shows "n = CACHE_NAME \<and> u = url req \<and> net u = Resolved r \<and> status r = 200 \<and>
         (shouldCache loc u \<or> caches_match s u \<noteq> None)"
proof (cases "method req = ''GET'' \<and> startsWith (url req) ''http''")
  case False
  then have "fetch_handler loc net s req = (PassThrough, s, [])"
    by (intro fetch_handler_skip) blast
  with assms show ?thesis by simp
next
  case guard: True
  show ?thesis
  proof (cases "caches_match s (url req)")
    case (Some cachedResponse)
    with guard assms show ?thesis
      by (auto simp: fetch_handler_hit refresh_def split: net_result.splits if_splits)
  next
    case None
    with guard assms show ?thesis
      by (auto simp: fetch_handler_miss split: net_result.splits if_splits)
  qed
qed

text \<open>
  Where no cache holds the fallback document (nothing the worker does brings this about
  after an installation), a miss with the network down resolves with \<^verbatim>\<open>undefined\<close>.
\<close>

lemma fallback_absent_undefined:
  assumes "method req = ''GET''" and "startsWith (url req) ''http''"
    and "caches_match s (url req) = None" and "net (url req) = Rejected"
    and "caches_match s (resolve loc OFFLINE_FALLBACK) = None"
  shows "fst (fetch_handler loc net s req) = RespondWith None"
  using assms by (simp add: fetch_handler_miss)

section \<open>The claims\<close>

subsection \<open>Installation\<close>

text \<open>
  C2. The claim: after a successful installation the main cache holds every local URL
  of the asset list. \<^verbatim>\<open>ASSETS_TO_CACHE\<close> ("Archivos que se cachean al instalar el
  SW") lists four local URLs, but the install handler never reads it: it passes
  \<^verbatim>\<open>addAll\<close> a list of its own with two of them. With every asset reachable the
  installation succeeds and the main cache holds the page, the manifest and the
  stylesheet; the two icons of the asset list are not in it.
\<close>

theorem install_leaves_icons_uncached:
  "spec_local_assets =
     [''./comensales.html'', ''./manifest.json'', ''./icon-192.png'', ''./icon-512.png''] \<and>
   fst (install app_location online []) = Installed \<and>
   map fst (cache_of CACHE_NAME (fst (snd (install app_location online [])))) =
     [''https://app.example/pwa/comensales.html'', ''https://app.example/pwa/manifest.json'',
      FONTS_CSS] \<and>
   resolve app_location ''./icon-192.png'' \<notin>
     cached_urls CACHE_NAME (fst (snd (install app_location online []))) \<and>
   resolve app_location ''./icon-512.png'' \<notin>
     cached_urls CACHE_NAME (fst (snd (install app_location online [])))"
  by code_simp

theorem install_leaves_icons_uncached_witness:
  "\<not> (\<forall>u \<in> set spec_local_assets.
        resolve app_location u \<in>
          cached_urls CACHE_NAME (fst (snd (install app_location online []))))"
proof
  assume "\<forall>u \<in> set spec_local_assets.
            resolve app_location u \<in>
              cached_urls CACHE_NAME (fst (snd (install app_location online [])))"
  moreover have "''./icon-192.png'' \<in> set spec_local_assets"
    by (simp add: conjunct1 [OF install_leaves_icons_uncached])
  ultimately have "resolve app_location ''./icon-192.png'' \<in>
      cached_urls CACHE_NAME (fst (snd (install app_location online [])))" by blast
  with install_leaves_icons_uncached show False by blast
qed

subsection \<open>Activation\<close>

text \<open>
  C4. Activation deletes exactly the caches whose name is neither the main cache name
  nor the reserved offline-cache name and leaves these two, with their contents, as
  they were: the storage after activation is the storage before, restricted to the
  two names. Starting from the caches \<open>CACHE_NAME\<close>, \<^verbatim>\<open>old-v0\<close> and \<^verbatim>\<open>other\<close>,
  exactly the main cache remains.
\<close>

theorem activate_deletes_obsolete:
  "fst (activate s) = filter (\<lambda>e. fst e = CACHE_NAME \<or> fst e = CACHE_OFFLINE) s \<and>
   fst (activate [(CACHE_NAME, c), (''old-v0'', c1), (''other'', c2)]) = [(CACHE_NAME, c)]"
proof
  show "fst (activate s) = filter (\<lambda>e. fst e = CACHE_NAME \<or> fst e = CACHE_OFFLINE) s"
    by (rule activate_filter)
  show "fst (activate [(CACHE_NAME, c), (''old-v0'', c1), (''other'', c2)]) = [(CACHE_NAME, c)]"
    by (simp add: activate_filter CACHE_NAME_def CACHE_OFFLINE_def)
qed

subsection \<open>The fetch interceptor\<close>

text \<open>
  C5. For a GET request whose URL starts with \<^verbatim>\<open>http\<close> (as every http and https URL
  does) and that some cache holds, the value handed to \<^verbatim>\<open>respondWith\<close> is the
  cached response, whatever the network answers to the refresh: the theorem holds for
  every network, and in particular for the unreachable one.
\<close>

theorem hit_returns_cached:
  assumes "method req = ''GET''"
    and "startsWith (url req) ''http''"
    and "caches_match s (url req) = Some cachedResponse"
  shows "fst (fetch_handler loc net s req) = RespondWith (Some cachedResponse) \<and>
         fst (fetch_handler loc offline s req) = RespondWith (Some cachedResponse)"
  using assms by (simp add: fetch_handler_hit)

theorem hit_returns_cached_witness:
  "method (get_request ''https://app.example/pwa/comensales.html'') = ''GET'' \<and>
   startsWith (url (get_request ''https://app.example/pwa/comensales.html'')) ''http'' \<and>
   caches_match [(CACHE_NAME, [(''https://app.example/pwa/comensales.html'', ok200)])]
     (url (get_request ''https://app.example/pwa/comensales.html'')) = Some ok200 \<and>
   fst (fetch_handler app_location online_404
          [(CACHE_NAME, [(''https://app.example/pwa/comensales.html'', ok200)])]
          (get_request ''https://app.example/pwa/comensales.html'')) = RespondWith (Some ok200) \<and>
   fst (fetch_handler app_location offline
          [(CACHE_NAME, [(''https://app.example/pwa/comensales.html'', ok200)])]
          (get_request ''https://app.example/pwa/comensales.html'')) = RespondWith (Some ok200)"
proof -
  let ?req = "get_request ''https://app.example/pwa/comensales.html''"
  let ?s = "[(CACHE_NAME, [(''https://app.example/pwa/comensales.html'', ok200)])]"
  have m: "method ?req = ''GET''" by (simp add: get_request_def)
  have h: "startsWith (url ?req) ''http''" by (simp add: get_request_def startsWith_def)
  have c: "caches_match ?s (url ?req) = Some ok200"
    by (simp add: get_request_def cache_match_def)
  from hit_returns_cached [OF m h c, of app_location online_404] m h c
  show ?thesis by simp
qed

text \<open>
  C7. For a GET http(s) request that no cache holds and whose network fetch resolves
  with a response of a status other than 200, or of type \<^verbatim>\<open>error\<close>, the handler
  responds with that very response, the storage is left as it was, and the handler's
  operations are the cache lookup and the fetch: no cache is opened, nothing is put, and
  the offline fallback is not looked up.
\<close>

theorem miss_invalid_response_verbatim:
  assumes "method req = ''GET''"
    and "startsWith (url req) ''http''"
    and "caches_match s (url req) = None"
    and "net (url req) = Resolved networkResponse"
    and "status networkResponse \<noteq> 200 \<or> type networkResponse = ''error''"
  shows "fetch_handler loc net s req =
           (RespondWith (Some networkResponse), s, [CachesMatch (url req), NetFetch (url req)])"
  using assms by (auto simp: fetch_handler_miss)

theorem miss_invalid_response_verbatim_witness:
  "method (get_request ''https://app.example/pwa/nothing.html'') = ''GET'' \<and>
   startsWith (url (get_request ''https://app.example/pwa/nothing.html'')) ''http'' \<and>
   caches_match [] (url (get_request ''https://app.example/pwa/nothing.html'')) = None \<and>
   online_404 (url (get_request ''https://app.example/pwa/nothing.html'')) = Resolved missing404 \<and>
   status missing404 \<noteq> 200 \<and>
   fetch_handler app_location online_404 [] (get_request ''https://app.example/pwa/nothing.html'') =
     (RespondWith (Some missing404), [],
      [CachesMatch ''https://app.example/pwa/nothing.html'',
       NetFetch ''https://app.example/pwa/nothing.html''])"
proof -
  let ?req = "get_request ''https://app.example/pwa/nothing.html''"
  have m: "method ?req = ''GET''" by (simp add: get_request_def)
  have h: "startsWith (url ?req) ''http''" by (simp add: get_request_def startsWith_def)
  have c: "caches_match [] (url ?req) = None" by simp
  have n: "online_404 (url ?req) = Resolved missing404" by (simp add: online_404_def)
  have st: "status missing404 \<noteq> 200" by (simp add: missing404_def)
  then have d: "status missing404 \<noteq> 200 \<or> type missing404 = ''error''" ..
  from miss_invalid_response_verbatim
    [where req = ?req and s = "[]" and net = online_404 and networkResponse = missing404
       and loc = app_location, OF m h c n d]
  have "fetch_handler app_location online_404 [] ?req =
          (RespondWith (Some missing404), [], [CachesMatch (url ?req), NetFetch (url ?req)])" .
  with m h c n st show ?thesis by (simp add: get_request_def)
qed

text \<open>
  C8. A request whose method is not GET, or whose URL does not use the http or https
  scheme, passes through: \<^verbatim>\<open>respondWith\<close> is not called, the storage is unchanged,
  and the handler performs no operation at all, so no cache is read or written. The
  URL is one a fetch event carries: of the scheme http or https, or of a
  browser-extension scheme (the requests the comment at line 85 names).
\<close>

theorem other_requests_pass_through:
  assumes "method req \<noteq> ''GET'' \<or> (event_scheme (url req) \<and> \<not> spec_http_scheme (url req))"
  shows "fetch_handler loc net s req = (PassThrough, s, [])"
proof -
  from assms have "method req \<noteq> ''GET'' \<or> \<not> startsWith (url req) ''http''"
    using guard_is_scheme_test [of "url req"] by blast
  then show ?thesis by (rule fetch_handler_skip)
qed

theorem other_requests_pass_through_witness:
  "method \<lparr>method = ''POST'', url = ''https://app.example/pwa/api''\<rparr> \<noteq> ''GET'' \<and>
   fetch_handler app_location online [(CACHE_NAME, [])]
     \<lparr>method = ''POST'', url = ''https://app.example/pwa/api''\<rparr> =
     (PassThrough, [(CACHE_NAME, [])], []) \<and>
   event_scheme (url (get_request ''chrome-extension://abc/content.js'')) \<and>
   \<not> spec_http_scheme (url (get_request ''chrome-extension://abc/content.js'')) \<and>
   fetch_handler app_location online [(CACHE_NAME, [])]
     (get_request ''chrome-extension://abc/content.js'') =
     (PassThrough, [(CACHE_NAME, [])], [])"
proof -
  let ?post = "\<lparr>method = ''POST'', url = ''https://app.example/pwa/api''\<rparr>"
  let ?ext = "get_request ''chrome-extension://abc/content.js''"
  have p: "method ?post \<noteq> ''GET''" by simp
  have e: "event_scheme (url ?ext)"
    by (simp add: event_scheme_def url_scheme_def get_request_def startsWith_def)
  have n: "\<not> spec_http_scheme (url ?ext)"
    by (simp add: spec_http_scheme_def url_scheme_def get_request_def)
  from p have p': "method ?post \<noteq> ''GET'' \<or>
      (event_scheme (url ?post) \<and> \<not> spec_http_scheme (url ?post))" ..
  from e n have e': "method ?ext \<noteq> ''GET'' \<or>
      (event_scheme (url ?ext) \<and> \<not> spec_http_scheme (url ?ext))" by blast
  from other_requests_pass_through [OF p', of app_location online "[(CACHE_NAME, [])]"]
    other_requests_pass_through [OF e', of app_location online "[(CACHE_NAME, [])]"] p e n
  show ?thesis by simp
qed

text \<open>
  C1. In every storage the worker reaches from a successful installation through its own
  handlers (installs, activations, fetches and messages, in any number and order, over
  any networks), the interceptor answers a GET http(s) request with a response object:
  \<^verbatim>\<open>respondWith\<close> never gets \<^verbatim>\<open>undefined\<close> and nothing is thrown. When no cache
  holds the request and the network is unreachable, the answer is the offline-fallback
  document, which the main cache still holds.
\<close>

theorem always_responds:
  assumes "fst (install loc net0 s0) = Installed"
    and "s = fst (run loc (fst (snd (install loc net0 s0))) evs)"
    and "method req = ''GET''"
    and "startsWith (url req) ''http''"
  shows "(\<exists>r. fst (fetch_handler loc net s req) = RespondWith (Some r)) \<and>
         (caches_match s (url req) = None \<and> net (url req) = Rejected \<longrightarrow>
            resolve loc OFFLINE_FALLBACK \<in> cached_urls CACHE_NAME s \<and>
            (\<exists>document. caches_match s (resolve loc OFFLINE_FALLBACK) = Some document \<and>
               fetch_handler loc net s req =
                 (RespondWith (Some document), s,
                  [CachesMatch (url req), NetFetch (url req),
                   CachesMatch (resolve loc OFFLINE_FALLBACK)])))"
proof -
  have stored: "resolve loc OFFLINE_FALLBACK \<in> cached_urls CACHE_NAME s"
    using fallback_stays_cached [OF assms(1)] assms(2) by simp
  then obtain document where doc: "caches_match s (resolve loc OFFLINE_FALLBACK) = Some document"
    using cached_urls_match by blast
  have responds: "\<exists>r. fst (fetch_handler loc net s req) = RespondWith (Some r)"
  proof (cases "caches_match s (url req)")
    case (Some cachedResponse)
    with assms(3,4) show ?thesis by (simp add: fetch_handler_hit)
  next
    case None
    with assms(3,4) doc show ?thesis
      by (cases "net (url req)") (simp_all add: fetch_handler_miss)
  qed
  have fallback: "fetch_handler loc net s req =
      (RespondWith (Some document), s,
       [CachesMatch (url req), NetFetch (url req), CachesMatch (resolve loc OFFLINE_FALLBACK)])"
    if "caches_match s (url req) = None" "net (url req) = Rejected"
    using that assms(3,4) doc by (simp add: fetch_handler_miss)
  from stored doc responds fallback show ?thesis by blast
qed

theorem always_responds_witness:
  "fst (install app_location online []) = Installed \<and>
   method (get_request ''https://app.example/pwa/absent.html'') = ''GET'' \<and>
   startsWith (url (get_request ''https://app.example/pwa/absent.html'')) ''http'' \<and>
   caches_match (fst (run app_location (fst (snd (install app_location online []))) example_events))
     (url (get_request ''https://app.example/pwa/absent.html'')) = None \<and>
   offline (url (get_request ''https://app.example/pwa/absent.html'')) = Rejected \<and>
   fst (fetch_handler app_location offline
         (fst (run app_location (fst (snd (install app_location online []))) example_events))
         (get_request ''https://app.example/pwa/absent.html'')) = RespondWith (Some ok200)"
proof -
  let ?s = "fst (run app_location (fst (snd (install app_location online []))) example_events)"
  let ?req = "get_request ''https://app.example/pwa/absent.html''"
  have i: "fst (install app_location online []) = Installed" by code_simp
  have m: "method ?req = ''GET''" by (simp add: get_request_def)
  have h: "startsWith (url ?req) ''http''" by (simp add: get_request_def startsWith_def)
  have miss: "caches_match ?s (url ?req) = None" by code_simp
  have down: "offline (url ?req) = Rejected" by (simp add: offline_def)
  have doc: "caches_match ?s (resolve app_location OFFLINE_FALLBACK) = Some ok200" by code_simp
  from always_responds [OF i refl m h, of offline example_events] miss down doc
  have "fst (fetch_handler app_location offline ?s ?req) = RespondWith (Some ok200)"
    by auto
  with i m h miss down show ?thesis by blast
qed

text \<open>
  C3. The claim: on a miss answered with status 200 the response is stored if and only
  if the URL belongs to the worker's origin or to one of the two font hosts. The
  handler tests \<^verbatim>\<open>url.includes(...)\<close>, so a URL of another host that has one of the
  three texts anywhere in it is stored too: the host of
  \<^verbatim>\<open>https://cdn.example/fonts.gstatic.com/a.woff2\<close> is \<^verbatim>\<open>cdn.example\<close>, and its
  response is put into the main cache.
\<close>

theorem substring_match_is_cached:
  "url_host cdn_font = ''cdn.example'' \<and>
   url_origin cdn_font = ''https://cdn.example'' \<and>
   \<not> spec_cacheable app_location cdn_font \<and>
   fetch_handler app_location online_cors [] (get_request cdn_font) =
     (RespondWith (Some cors200), [(CACHE_NAME, [(cdn_font, cors200)])],
      [CachesMatch cdn_font, NetFetch cdn_font, CachesOpen CACHE_NAME,
       CachePut CACHE_NAME cdn_font cors200])"
  by code_simp

theorem substring_match_is_cached_witness:
  "cdn_font \<in> cached_urls CACHE_NAME
     (fst (snd (fetch_handler app_location online_cors [] (get_request cdn_font))))"
  using substring_match_is_cached by (simp add: cached_urls_def cache_of_def)

text \<open>
  C6. The claim: every entry the fetch handler adds to the main cache, the refresh of the
  hit branch included, comes from a status-200 fetch of a URL of the worker's origin or
  of a font host. After an installation, two fetches of the URL above write it twice,
  once in the miss branch (through the substring test of C3) and once in the refresh of
  the hit branch, which tests only the status.
\<close>

theorem writes_outside_policy:
  "\<not> spec_cacheable app_location cdn_font \<and>
   map snd (snd (run app_location (fst (snd (install app_location online [])))
                  [FetchEvent online_cors (get_request cdn_font),
                   FetchEvent online_cors (get_request cdn_font)])) =
     [[CachesMatch cdn_font, NetFetch cdn_font, CachesOpen CACHE_NAME,
       CachePut CACHE_NAME cdn_font cors200],
      [CachesMatch cdn_font, NetFetch cdn_font, CachesOpen CACHE_NAME,
       CachePut CACHE_NAME cdn_font cors200]] \<and>
   cdn_font \<in> cached_urls CACHE_NAME
     (fst (run app_location (fst (snd (install app_location online [])))
            [FetchEvent online_cors (get_request cdn_font),
             FetchEvent online_cors (get_request cdn_font)]))"
  by code_simp

theorem writes_outside_policy_witness:
  "CachePut CACHE_NAME cdn_font cors200 \<in>
     set (concat (map snd (snd (run app_location (fst (snd (install app_location online [])))
                                  [FetchEvent online_cors (get_request cdn_font),
                                   FetchEvent online_cors (get_request cdn_font)]))))"
  using writes_outside_policy by simp

subsection \<open>The message handler\<close>

text \<open>
  C10. A \<^verbatim>\<open>GET_CACHE_STATUS\<close> message that carries no port is not ignored: the main
  cache is opened, its keys are read, and the continuation throws a TypeError at
  \<^verbatim>\<open>event.ports[0].postMessage\<close>; no reply is posted.
\<close>

theorem status_without_port_throws:
  assumes "data event = Some ''GET_CACHE_STATUS''"
    and "ports event = []"
  shows "message_handler s event =
           (TypeError, caches_open CACHE_NAME s, [CachesOpen CACHE_NAME, CacheKeys CACHE_NAME])"
  using assms by (simp add: message_handler_def Let_def)

theorem status_without_port_throws_witness:
  "data \<lparr>data = Some ''GET_CACHE_STATUS'', ports = []\<rparr> = Some ''GET_CACHE_STATUS'' \<and>
   ports \<lparr>data = Some ''GET_CACHE_STATUS'', ports = []\<rparr> = [] \<and>
   message_handler [] \<lparr>data = Some ''GET_CACHE_STATUS'', ports = []\<rparr> =
     (TypeError, [(CACHE_NAME, [])], [CachesOpen CACHE_NAME, CacheKeys CACHE_NAME])"
  using status_without_port_throws [of "\<lparr>data = Some ''GET_CACHE_STATUS'', ports = []\<rparr>" "[]"]
  by (simp add: caches_open_def)

text \<open>
  C9. A \<^verbatim>\<open>GET_CACHE_STATUS\<close> message with a port is answered on its first port with
  \<open>\<lparr>cached, count\<rparr>\<close>, where \<open>cached\<close> lists the URLs of the main cache's keys in
  order and \<open>count\<close> is the length of that list. When the main cache held nothing
  before the worker's first event, every listed URL was put into the main cache by the
  handler of an earlier install or fetch event of the run.
\<close>

theorem cache_status_reply:
  assumes "cached_urls CACHE_NAME s0 = {}"
    and "run loc s0 evs = (s, tr)"
    and "data event = Some ''GET_CACHE_STATUS''"
    and "ports event = port # rest"
  shows "\<exists>msg. message_handler s event =
                 (Replied port msg, caches_open CACHE_NAME s,
                  [CachesOpen CACHE_NAME, CacheKeys CACHE_NAME, PostMessage port msg]) \<and>
               cached msg = map fst (cache_of CACHE_NAME s) \<and>
               count msg = length (cached msg) \<and>
               (\<forall>u \<in> set (cached msg).
                  \<exists>e fx. (e, fx) \<in> set tr \<and> writer e \<and> u \<in> set (written CACHE_NAME fx))"
proof -
  let ?msg = "\<lparr>cached = map fst (cache_of CACHE_NAME s), count = length (cache_of CACHE_NAME s)\<rparr>"
  have prov: "\<exists>e fx. (e, fx) \<in> set tr \<and> writer e \<and> u \<in> set (written CACHE_NAME fx)"
    if "u \<in> set (cached ?msg)" for u
  proof -
    from that have "u \<in> cached_urls CACHE_NAME s" by (simp add: cached_urls_def)
    with run_cached [OF assms(2)] assms(1) show ?thesis by auto
  qed
  have "message_handler s event =
          (Replied port ?msg, caches_open CACHE_NAME s,
           [CachesOpen CACHE_NAME, CacheKeys CACHE_NAME, PostMessage port ?msg])"
    using assms(3,4) by (rule status_reply)
  moreover have "cached ?msg = map fst (cache_of CACHE_NAME s)" by simp
  moreover have "count ?msg = length (cached ?msg)" by simp
  ultimately show ?thesis using prov by blast
qed

theorem cache_status_reply_witness:
  "cached_urls CACHE_NAME [] = {} \<and>
   data status_request = Some ''GET_CACHE_STATUS'' \<and>
   ports status_request = [7] \<and>
   (\<exists>msg. fst (message_handler (fst (run app_location [] [InstallEvent online, ActivateEvent]))
               status_request) = Replied 7 msg \<and>
          cached msg =
            [''https://app.example/pwa/comensales.html'', ''https://app.example/pwa/manifest.json'',
             FONTS_CSS] \<and>
          count msg = 3)"
proof -
  let ?evs = "[InstallEvent online, ActivateEvent]"
  let ?s = "fst (run app_location [] ?evs)"
  have e: "cached_urls CACHE_NAME [] = {}" by (simp add: cached_urls_def cache_of_def)
  have r: "run app_location [] ?evs = (?s, snd (run app_location [] ?evs))" by simp
  have d: "data status_request = Some ''GET_CACHE_STATUS''" by (simp add: status_request_def)
  have p: "ports status_request = 7 # []" by (simp add: status_request_def)
  have k: "map fst (cache_of CACHE_NAME ?s) =
             [''https://app.example/pwa/comensales.html'', ''https://app.example/pwa/manifest.json'',
              FONTS_CSS]" by code_simp
  from cache_status_reply [OF e r d p] obtain msg where
    "message_handler ?s status_request =
       (Replied 7 msg, caches_open CACHE_NAME ?s,
        [CachesOpen CACHE_NAME, CacheKeys CACHE_NAME, PostMessage 7 msg])"
    "cached msg = map fst (cache_of CACHE_NAME ?s)" "count msg = length (cached msg)"
    by blast
  with k have "fst (message_handler ?s status_request) = Replied 7 msg \<and>
      cached msg = [''https://app.example/pwa/comensales.html'',
                    ''https://app.example/pwa/manifest.json'', FONTS_CSS] \<and> count msg = 3"
    by simp
  with e d p show ?thesis by auto
qed

end
